theory Spec2Isabelle
  imports Complex_Main "HOL-Library.Word"
begin

section \<open>Double-precision values\<close>

text \<open>
  The C++ type \<open>double\<close> (IEEE-754 binary64). A finite double is represented by the real
  number it denotes; \<open>Fin 0\<close> stands for both zeros. The program only compares doubles
  (\<open>-0.0 <= 0\<close> holds like \<open>0.0 <= 0\<close>) and never divides by zero, so the sign of a
  zero is never observed.
\<close>

datatype double = NaN | PInf | NInf | Fin real

fun isnan :: "double \<Rightarrow> bool" where
  "isnan NaN = True"
| "isnan _ = False"

fun isinf :: "double \<Rightarrow> bool" where
  "isinf PInf = True"
| "isinf NInf = True"
| "isinf _ = False"

text \<open>Comparisons: every comparison with a NaN operand is false.\<close>

fun dle :: "double \<Rightarrow> double \<Rightarrow> bool" where
  "dle NaN _ = False"
| "dle _ NaN = False"
| "dle NInf _ = True"
| "dle _ PInf = True"
| "dle PInf _ = False"
| "dle _ NInf = False"
| "dle (Fin a) (Fin b) = (a \<le> b)"

fun dgt :: "double \<Rightarrow> double \<Rightarrow> bool" where
  "dgt NaN _ = False"
| "dgt _ NaN = False"
| "dgt NInf _ = False"
| "dgt _ PInf = False"
| "dgt PInf _ = True"
| "dgt _ NInf = True"
| "dgt (Fin a) (Fin b) = (b < a)"

fun dlt :: "double \<Rightarrow> double \<Rightarrow> bool" where
  "dlt NaN _ = False"
| "dlt _ NaN = False"
| "dlt PInf _ = False"
| "dlt _ NInf = False"
| "dlt NInf _ = True"
| "dlt _ PInf = True"
| "dlt (Fin a) (Fin b) = (a < b)"

subsection \<open>Rounding to nearest, ties to even\<close>

definition round_even :: "real \<Rightarrow> int" where
  "round_even x = (let f = \<lfloor>x\<rfloor>; d = x - of_int f in
     if d < 1/2 then f else if 1/2 < d then f + 1 else if even f then f else f + 1)"

text \<open>
  The exponent of the binade of \<open>x\<close>, not below the exponent of the subnormal numbers;
  neighbouring doubles in that binade are \<open>2 powr (binade x - 52)\<close> apart.
\<close>

definition binade :: "real \<Rightarrow> int" where
  "binade x = max \<lfloor>log 2 \<bar>x\<bar>\<rfloor> (- 1022)"

definition DBL_MAX :: real where
  "DBL_MAX = (2 ^ 53 - 1) * 2 ^ 971"

text \<open>The double nearest to the real \<open>x\<close>; an infinity when that exceeds \<open>DBL_MAX\<close>.\<close>

definition round_double :: "real \<Rightarrow> double" where
  "round_double x = (if x = 0 then Fin 0 else
     let ulp = 2 powr of_int (binade x - 52);
         r = of_int (round_even (x / ulp)) * ulp
     in if DBL_MAX < \<bar>r\<bar> then (if 0 < x then PInf else NInf) else Fin r)"

subsection \<open>Arithmetic\<close>

fun dadd :: "double \<Rightarrow> double \<Rightarrow> double" where
  "dadd NaN _ = NaN"
| "dadd _ NaN = NaN"
| "dadd PInf NInf = NaN"
| "dadd NInf PInf = NaN"
| "dadd PInf _ = PInf"
| "dadd _ PInf = PInf"
| "dadd NInf _ = NInf"
| "dadd _ NInf = NInf"
| "dadd (Fin a) (Fin b) = round_double (a + b)"

fun dsub :: "double \<Rightarrow> double \<Rightarrow> double" where
  "dsub NaN _ = NaN"
| "dsub _ NaN = NaN"
| "dsub PInf PInf = NaN"
| "dsub NInf NInf = NaN"
| "dsub PInf _ = PInf"
| "dsub _ NInf = PInf"
| "dsub NInf _ = NInf"
| "dsub _ PInf = NInf"
| "dsub (Fin a) (Fin b) = round_double (a - b)"

fun dmul :: "double \<Rightarrow> double \<Rightarrow> double" where
  "dmul NaN _ = NaN"
| "dmul _ NaN = NaN"
| "dmul PInf PInf = PInf"
| "dmul PInf NInf = NInf"
| "dmul NInf PInf = NInf"
| "dmul NInf NInf = PInf"
| "dmul PInf (Fin b) = (if b = 0 then NaN else if 0 < b then PInf else NInf)"
| "dmul NInf (Fin b) = (if b = 0 then NaN else if 0 < b then NInf else PInf)"
| "dmul (Fin a) PInf = (if a = 0 then NaN else if 0 < a then PInf else NInf)"
| "dmul (Fin a) NInf = (if a = 0 then NaN else if 0 < a then NInf else PInf)"
| "dmul (Fin a) (Fin b) = round_double (a * b)"

text \<open>
  Division. A zero divisor is taken as \<open>+0\<close>; the program divides by the constant
  \<open>1000000.0\<close> only.
\<close>

fun ddiv :: "double \<Rightarrow> double \<Rightarrow> double" where
  "ddiv NaN _ = NaN"
| "ddiv _ NaN = NaN"
| "ddiv PInf (Fin b) = (if 0 \<le> b then PInf else NInf)"
| "ddiv NInf (Fin b) = (if 0 \<le> b then NInf else PInf)"
| "ddiv PInf _ = NaN"
| "ddiv NInf _ = NaN"
| "ddiv (Fin a) PInf = Fin 0"
| "ddiv (Fin a) NInf = Fin 0"
| "ddiv (Fin a) (Fin b) =
     (if b = 0 then (if a = 0 then NaN else if 0 < a then PInf else NInf)
      else round_double (a / b))"

text \<open>\<open>static_cast<double>\<close> of an integer.\<close>

definition int_to_double :: "int \<Rightarrow> double" where
  "int_to_double n = round_double (of_int n)"

section \<open>Constants and errors\<close>

definition MAX_SLEEP_SECONDS :: double where
  "MAX_SLEEP_SECONDS = Fin 3600"

definition CHECK_INTERVAL_MS :: int where
  "CHECK_INTERVAL_MS = 100"

datatype exception = InvalidInputException | InterruptException

section \<open>PerformSleep: validation and clamping\<close>

text \<open>
  The first part of \<open>PerformSleep\<close>, up to the clamp at the ceiling: the exception thrown
  for NaN, \<open>None\<close> when the function returns at \<open>seconds <= 0\<close> without
  waiting, and otherwise the value of \<open>seconds\<close> that the waiting loop is entered with.
\<close>

definition PerformSleep_seconds :: "double \<Rightarrow> exception + double option" where
  "PerformSleep_seconds seconds =
     (if isnan seconds then Inl InvalidInputException
      else
        let seconds = (if isinf seconds then MAX_SLEEP_SECONDS else seconds) in
        if dle seconds (Fin 0) then Inr None
        else
          let seconds = (if dgt seconds MAX_SLEEP_SECONDS then MAX_SLEEP_SECONDS else seconds)
          in Inr (Some seconds))"

text \<open>
  The duration a call waits for: \<open>Fin 0\<close> when the call returns without waiting, the
  clamped value otherwise.
\<close>

definition wait_duration :: "double \<Rightarrow> exception + double" where
  "wait_duration seconds =
     (case PerformSleep_seconds seconds of
        Inl e \<Rightarrow> Inl e
      | Inr None \<Rightarrow> Inr (Fin 0)
      | Inr (Some d) \<Rightarrow> Inr d)"

section \<open>Time, cancellation and the waiting loop\<close>

text \<open>
  The surroundings of a call. The steps that read the clock or the interrupt flag, and
  the sleeps, are the events of a run, numbered from 0. \<open>elapse env n\<close> is the number
  of nanoseconds that pass between the event before and event \<open>n\<close>;
  \<open>interrupted env t\<close> is the value of \<open>context.interrupted\<close> when it is read at
  steady-clock time \<open>t\<close> (in nanoseconds); \<open>oversleep env n\<close> is the number of
  nanoseconds by which the sleep that is event \<open>n\<close> overruns the whole nanoseconds
  asked for; \<open>GetCurrentTimestamp env t\<close> is the wall-clock timestamp, in microseconds
  since the epoch, that \<open>Timestamp::GetCurrentTimestamp()\<close> returns at steady-clock
  time \<open>t\<close>.
\<close>

record env =
  interrupted :: "int \<Rightarrow> bool"
  elapse :: "nat \<Rightarrow> nat"
  oversleep :: "nat \<Rightarrow> nat"
  GetCurrentTimestamp :: "int \<Rightarrow> 64 word"

text \<open>
  The state a call changes: the steady clock in nanoseconds, the number of events so
  far, and the durations (in nanoseconds) of the calls of \<open>sleep_for\<close> made so far.
\<close>

record world =
  steady_clock :: int
  events :: nat
  slept :: "real list"

text \<open>Time passes up to the next event.\<close>

definition tick :: "env \<Rightarrow> world \<Rightarrow> world" where
  "tick env w =
     w\<lparr>steady_clock := steady_clock w + int (elapse env (events w)), events := Suc (events w)\<rparr>"

text \<open>\<open>std::chrono::steady_clock::now()\<close>: the reading, an \<open>int64_t\<close> count of nanoseconds.\<close>

definition steady_clock_now :: "env \<Rightarrow> world \<Rightarrow> int \<times> world" where
  "steady_clock_now env w = (let w' = tick env w in (steady_clock w', w'))"

text \<open>
  \<open>std::this_thread::sleep_for\<close> with a duration in double nanoseconds: blocks for the
  whole nanoseconds of the duration at least. The loop calls it with a finite positive
  duration only.
\<close>

fun sleep_for :: "env \<Rightarrow> double \<Rightarrow> world \<Rightarrow> world" where
  "sleep_for env (Fin sleep_duration) w =
     w\<lparr>steady_clock := steady_clock w + \<lfloor>sleep_duration\<rfloor> + int (oversleep env (events w)),
       events := Suc (events w),
       slept := slept w @ [sleep_duration]\<rparr>"
| "sleep_for env _ w = w"

text \<open>\<open>CheckInterruption\<close>: reads the flag and throws when the context is interrupted.\<close>

definition CheckInterruption :: "env \<Rightarrow> world \<Rightarrow> (exception + unit) \<times> world" where
  "CheckInterruption env w =
     (let w' = tick env w in
      if interrupted env (steady_clock w') then (Inl InterruptException, w') else (Inr (), w'))"

text \<open>
  The \<open>while\<close> loop of \<open>PerformSleep\<close>. Time points and durations are doubles counting
  nanoseconds, as the common type of the \<open>int64_t\<close> nanoseconds of the clock and the
  \<open>double\<close> seconds of the duration makes them; every reading of the clock is converted
  to a double. The loop need not end: the result is \<open>None\<close> when it does not.
\<close>

partial_function (option) WaitLoop ::
  "env \<Rightarrow> double \<Rightarrow> world \<Rightarrow> ((exception + unit) \<times> world) option" where
  "WaitLoop env end_time w =
     (case steady_clock_now env w of (now1, w1) \<Rightarrow>
        if dlt (int_to_double now1) end_time then
          (case CheckInterruption env w1 of
             (Inl e, w2) \<Rightarrow> Some (Inl e, w2)
           | (Inr _, w2) \<Rightarrow>
               (case steady_clock_now env w2 of (now2, w3) \<Rightarrow>
                  let remaining = dsub end_time (int_to_double now2);
                      check_interval = dmul (int_to_double CHECK_INTERVAL_MS) (Fin 1000000);
                      sleep_duration =
                        (if dlt remaining check_interval then remaining else check_interval)
                  in if dgt sleep_duration (Fin 0)
                     then WaitLoop env end_time (sleep_for env sleep_duration w3)
                     else WaitLoop env end_time w3))
        else Some (Inr (), w1))"

text \<open>
  The \<open>sleep_duration\<close> of an iteration whose second reading of the clock is \<open>now2\<close>,
  and the world after the iteration's sleep, if it sleeps.
\<close>

definition sleep_duration_at :: "double \<Rightarrow> int \<Rightarrow> double" where
  "sleep_duration_at end_time now2 =
     (let remaining = dsub end_time (int_to_double now2);
          check_interval = dmul (int_to_double CHECK_INTERVAL_MS) (Fin 1000000)
      in if dlt remaining check_interval then remaining else check_interval)"

definition after_sleep :: "env \<Rightarrow> double \<Rightarrow> world \<Rightarrow> world" where
  "after_sleep env end_time w3 =
     (let sleep_duration = sleep_duration_at end_time (steady_clock w3)
      in if dgt sleep_duration (Fin 0) then sleep_for env sleep_duration w3 else w3)"

text \<open>
  \<open>steady_clock::now() + duration\<close> for the reading \<open>now0\<close>: the seconds are
  converted to double nanoseconds and added to the reading as a double.
\<close>

definition deadline :: "double \<Rightarrow> int \<Rightarrow> double" where
  "deadline seconds now0 = dadd (int_to_double now0) (dmul seconds (Fin 1000000000))"

definition PerformSleep ::
  "env \<Rightarrow> double \<Rightarrow> world \<Rightarrow> ((exception + unit) \<times> world) option" where
  "PerformSleep env seconds w =
     (case PerformSleep_seconds seconds of
        Inl e \<Rightarrow> Some (Inl e, w)
      | Inr None \<Rightarrow> Some (Inr (), w)
      | Inr (Some seconds) \<Rightarrow>
          (case steady_clock_now env w of (now0, w0) \<Rightarrow>
             let end_time = deadline seconds now0
             in WaitLoop env end_time w0))"

section \<open>The scalar functions\<close>

text \<open>
  An argument column is the list of its rows, \<open>None\<close> for a row that is not valid
  (NULL). A result vector is a flat vector with a validity mask or a constant vector
  with its null flag. A call that does not return has the result \<open>None\<close>.
\<close>

datatype vector = FlatVector "nat \<Rightarrow> bool" | ConstantVector bool

fun RowIsNull :: "vector \<Rightarrow> nat \<Rightarrow> bool" where
  "RowIsNull (FlatVector validity) i = (\<not> validity i)"
| "RowIsNull (ConstantVector is_null) i = is_null"

subsection \<open>sleep(seconds)\<close>

fun SleepFunction_rows ::
  "env \<Rightarrow> double option list \<Rightarrow> world \<Rightarrow> ((exception + unit) \<times> world) option" where
  "SleepFunction_rows env [] w = Some (Inr (), w)"
| "SleepFunction_rows env (None # rows) w = SleepFunction_rows env rows w"
| "SleepFunction_rows env (Some seconds # rows) w =
     (case PerformSleep env seconds w of
        None \<Rightarrow> None
      | Some (Inl e, w') \<Rightarrow> Some (Inl e, w')
      | Some (Inr _, w') \<Rightarrow> SleepFunction_rows env rows w')"

definition SleepFunction ::
  "env \<Rightarrow> double option list \<Rightarrow> world \<Rightarrow> ((exception + vector) \<times> world) option" where
  "SleepFunction env args w =
     (case SleepFunction_rows env args w of
        None \<Rightarrow> None
      | Some (Inl e, w') \<Rightarrow> Some (Inl e, w')
      | Some (Inr _, w') \<Rightarrow> Some (Inr (ConstantVector True), w'))"

subsection \<open>sleep_for(interval)\<close>

record interval_t =
  months :: "32 word"
  days :: "32 word"
  micros :: "64 word"

text \<open>The conversion of an interval to seconds, in double arithmetic.\<close>

definition total_seconds :: "interval_t \<Rightarrow> double" where
  "total_seconds interval =
     dadd (dadd (dmul (int_to_double (sint (days interval))) (Fin 86400))
                (dmul (int_to_double (sint (months interval))) (Fin 2592000)))
          (ddiv (int_to_double (sint (micros interval))) (Fin 1000000))"

fun SleepForFunction_rows ::
  "env \<Rightarrow> interval_t option list \<Rightarrow> world \<Rightarrow> ((exception + unit) \<times> world) option" where
  "SleepForFunction_rows env [] w = Some (Inr (), w)"
| "SleepForFunction_rows env (None # rows) w = SleepForFunction_rows env rows w"
| "SleepForFunction_rows env (Some interval # rows) w =
     (case PerformSleep env (total_seconds interval) w of
        None \<Rightarrow> None
      | Some (Inl e, w') \<Rightarrow> Some (Inl e, w')
      | Some (Inr _, w') \<Rightarrow> SleepForFunction_rows env rows w')"

definition SleepForFunction ::
  "env \<Rightarrow> interval_t option list \<Rightarrow> world \<Rightarrow> ((exception + vector) \<times> world) option" where
  "SleepForFunction env args w =
     (case SleepForFunction_rows env args w of
        None \<Rightarrow> None
      | Some (Inl e, w') \<Rightarrow> Some (Inl e, w')
      | Some (Inr _, w') \<Rightarrow> Some (Inr (ConstantVector True), w'))"

subsection \<open>sleep_until(timestamp)\<close>

text \<open>
  A \<open>timestamp_t\<close> is its \<open>int64_t\<close> field \<open>value\<close>: microseconds since the epoch.
  The subtraction of two of them is the machine subtraction, which wraps around.
\<close>

type_synonym timestamp_t = "64 word"

definition INT64_MIN :: "64 word" where
  "INT64_MIN = - 9223372036854775808"

definition INT64_MAX :: "64 word" where
  "INT64_MAX = 9223372036854775807"

text \<open>The seconds from the current timestamp to the target, in double arithmetic.\<close>

definition timestamp_seconds :: "timestamp_t \<Rightarrow> timestamp_t \<Rightarrow> double" where
  "timestamp_seconds target_timestamp current_timestamp =
     (let diff_micros = target_timestamp - current_timestamp
      in ddiv (int_to_double (sint diff_micros)) (Fin 1000000))"

fun SleepUntilFunction_rows ::
  "env \<Rightarrow> timestamp_t option list \<Rightarrow> world \<Rightarrow> ((exception + unit) \<times> world) option" where
  "SleepUntilFunction_rows env [] w = Some (Inr (), w)"
| "SleepUntilFunction_rows env (None # rows) w = SleepUntilFunction_rows env rows w"
| "SleepUntilFunction_rows env (Some target_timestamp # rows) w =
     (let current_timestamp = GetCurrentTimestamp env (steady_clock w) in
      if target_timestamp = INT64_MIN then SleepUntilFunction_rows env rows w
      else if target_timestamp = INT64_MAX then
        (case PerformSleep env MAX_SLEEP_SECONDS w of
           None \<Rightarrow> None
         | Some (Inl e, w') \<Rightarrow> Some (Inl e, w')
         | Some (Inr _, w') \<Rightarrow> SleepUntilFunction_rows env rows w')
      else
        (case PerformSleep env (timestamp_seconds target_timestamp current_timestamp) w of
           None \<Rightarrow> None
         | Some (Inl e, w') \<Rightarrow> Some (Inl e, w')
         | Some (Inr _, w') \<Rightarrow> SleepUntilFunction_rows env rows w'))"

definition SleepUntilFunction ::
  "env \<Rightarrow> timestamp_t option list \<Rightarrow> world \<Rightarrow> ((exception + vector) \<times> world) option" where
  "SleepUntilFunction env args w =
     (case SleepUntilFunction_rows env args w of
        None \<Rightarrow> None
      | Some (Inl e, w') \<Rightarrow> Some (Inl e, w')
      | Some (Inr _, w') \<Rightarrow> Some (Inr (ConstantVector True), w'))"

section \<open>Example surroundings\<close>

text \<open>
  A context that is never interrupted, with a clock that stands still between the
  events, sleeps that end exactly on time, and a wall clock that reads 1700000000000000
  microseconds when the steady clock reads 0.
\<close>

definition quiet_env :: env where
  "quiet_env = \<lparr>interrupted = (\<lambda>t. False), elapse = (\<lambda>n. 0), oversleep = (\<lambda>n. 0),
     GetCurrentTimestamp = (\<lambda>t. word_of_int (1700000000000000 + t div 1000))\<rparr>"

text \<open>The same, but interrupted from 120 milliseconds on.\<close>

definition cancel_env :: env where
  "cancel_env = \<lparr>interrupted = (\<lambda>t. 120000000 \<le> t), elapse = (\<lambda>n. 0), oversleep = (\<lambda>n. 0),
     GetCurrentTimestamp = (\<lambda>t. word_of_int (1700000000000000 + t div 1000))\<rparr>"

text \<open>
  A context interrupted from time \<open>T\<close> on, in which a nanosecond passes before every
  event.
\<close>

definition ticking_env :: "int \<Rightarrow> env" where
  "ticking_env T = \<lparr>interrupted = (\<lambda>t. T \<le> t), elapse = (\<lambda>n. 1), oversleep = (\<lambda>n. 0),
     GetCurrentTimestamp = (\<lambda>t. word_of_int (1700000000000000 + t div 1000))\<rparr>"

definition start_world :: world where
  "start_world = \<lparr>steady_clock = 0, events = 0, slept = []\<rparr>"

text \<open>Intervals and a timestamp used in examples.\<close>

definition quarter_second :: interval_t where
  "quarter_second = \<lparr>months = 0, days = 0, micros = 250000\<rparr>"

definition half_second :: interval_t where
  "half_second = \<lparr>months = 0, days = 0, micros = 500000\<rparr>"

definition one_month :: interval_t where
  "one_month = \<lparr>months = 1, days = 0, micros = 0\<rparr>"

text \<open>
  A timestamp about 292000 years before the epoch, less than 1700000000000000
  microseconds above the smallest \<open>int64_t\<close>.
\<close>

definition far_past :: timestamp_t where
  "far_past = - 9223372022400000000"

section \<open>Facts about rounding\<close>

lemma round_even_of_int [simp]: "round_even (of_int n) = n"
  by (simp add: round_even_def)

lemma round_even_le: "x \<le> of_int n \<Longrightarrow> round_even x \<le> n"
proof -
  assume a: "x \<le> of_int n"
  have f: "\<lfloor>x\<rfloor> \<le> n" using a by (simp add: floor_le_iff)
  have "x - of_int \<lfloor>x\<rfloor> = 0 \<or> \<lfloor>x\<rfloor> + 1 \<le> n"
  proof (cases "\<lfloor>x\<rfloor> = n")
    case True
    then show ?thesis
      using a by (metis diff_ge_0_iff_ge le_iff_diff_le_0 of_int_floor_le order_antisym)
  next
    case False
    then show ?thesis using f by linarith
  qed
  then show ?thesis using f unfolding round_even_def Let_def by auto
qed

lemma round_even_ge: "of_int n \<le> x \<Longrightarrow> n \<le> round_even x"
proof -
  assume a: "of_int n \<le> x"
  have f: "n \<le> \<lfloor>x\<rfloor>" using a by (simp add: le_floor_iff)
  then show ?thesis unfolding round_even_def Let_def by auto
qed

lemma round_even_error: "\<bar>of_int (round_even y) - y\<bar> \<le> 1/2"
  unfolding round_even_def Let_def by (auto simp: abs_if) linarith+

lemma two_powr_int_ex: "0 \<le> j \<Longrightarrow> (2::real) powr of_int j = of_int (2 ^ nat j)"
  by (simp add: powr_real_of_int)

lemma binade_le:
  assumes "x \<noteq> 0" and "\<bar>x\<bar> \<le> 2 powr of_int k" and "- 1022 \<le> k"
  shows "binade x \<le> k"
proof -
  have "log 2 \<bar>x\<bar> \<le> of_int k" using assms by (simp add: log_le_iff)
  then have "\<lfloor>log 2 \<bar>x\<bar>\<rfloor> \<le> k" by (simp add: floor_le_iff)
  then show ?thesis using assms by (simp add: binade_def)
qed

lemma binade_less:
  assumes "x \<noteq> 0" and "\<bar>x\<bar> < 2 powr of_int (k + 1)" and "- 1022 \<le> k"
  shows "binade x \<le> k"
proof -
  have "log 2 \<bar>x\<bar> < of_int (k + 1)" using assms by (simp add: log_less_iff)
  then have "\<lfloor>log 2 \<bar>x\<bar>\<rfloor> < k + 1" by (simp only: floor_less_iff)
  then show ?thesis using assms by (simp add: binade_def)
qed

lemma binade_lower:
  assumes "x \<noteq> 0" and "2 powr (- 1022) \<le> \<bar>x\<bar>"
  shows "2 powr of_int (binade x) \<le> \<bar>x\<bar>"
proof -
  have "of_int \<lfloor>log 2 \<bar>x\<bar>\<rfloor> \<le> log 2 \<bar>x\<bar>" by simp
  then have 1: "2 powr of_int \<lfloor>log 2 \<bar>x\<bar>\<rfloor> \<le> \<bar>x\<bar>"
    using assms le_log_iff[of 2 "\<bar>x\<bar>" "of_int \<lfloor>log 2 \<bar>x\<bar>\<rfloor>"] by simp
  show ?thesis
  proof (cases "\<lfloor>log 2 \<bar>x\<bar>\<rfloor> \<le> - 1022")
    case True
    then have "binade x = - 1022" by (simp add: binade_def)
    then show ?thesis using assms by simp
  next
    case False
    then have "binade x = \<lfloor>log 2 \<bar>x\<bar>\<rfloor>" by (simp add: binade_def)
    then show ?thesis using 1 by simp
  qed
qed

lemma DBL_MAX_ge: "2 powr 1023 \<le> DBL_MAX"
proof -
  have "(2::real) powr 1023 = 2 ^ 1023" by simp
  moreover have "(2::real) ^ 1023 = 2 ^ 52 * 2 ^ 971" by (simp flip: power_add)
  moreover have "(2::real) ^ 52 * 2 ^ 971 \<le> (2 ^ 53 - 1) * 2 ^ 971"
    by (intro mult_right_mono) simp_all
  ultimately show ?thesis by (simp add: DBL_MAX_def)
qed

text \<open>
  A real of magnitude at most \<open>2 powr k\<close> rounds to a finite double of magnitude at most
  \<open>2 powr k\<close>, of the same sign, at most half a unit in the last place away.
\<close>

lemma round_double_bounded:
  assumes "\<bar>x\<bar> \<le> 2 powr of_int k" and "- 1022 \<le> k" and "k \<le> 1023"
  shows "\<exists>r. round_double x = Fin r \<and> \<bar>r\<bar> \<le> 2 powr of_int k
     \<and> \<bar>r - x\<bar> \<le> 2 powr of_int (binade x - 53)
     \<and> (0 \<le> x \<longrightarrow> 0 \<le> r) \<and> (x \<le> 0 \<longrightarrow> r \<le> 0)"
proof (cases "x = 0")
  case True
  then show ?thesis by (simp add: round_double_def)
next
  case False
  define e where "e = binade x"
  define u :: real where "u = 2 powr of_int (e - 52)"
  define n where "n = round_even (x / u)"
  define r where "r = of_int n * u"
  have upos: "0 < u" by (simp add: u_def)
  have ek: "e \<le> k" unfolding e_def using False assms by (intro binade_le) auto
  define N :: int where "N = 2 ^ nat (k - e + 52)"
  have Nu: "of_int N * u = 2 powr of_int k"
  proof -
    have "(2::real) powr of_int (k - e + 52) = of_int (2 ^ nat (k - e + 52))"
      using ek by (intro two_powr_int_ex) simp
    then have "of_int N = (2::real) powr of_int (k - e + 52)" unfolding N_def by (simp only:)
    then have "of_int N * u = 2 powr (of_int (k - e + 52) + of_int (e - 52))"
      by (simp only: u_def powr_add)
    then show ?thesis by simp
  qed
  have xu: "\<bar>x / u\<bar> \<le> of_int N"
  proof -
    have "\<bar>x\<bar> \<le> of_int N * u" using assms Nu by simp
    then show ?thesis using upos by (simp add: field_simps)
  qed
  have xu2: "x / u \<le> of_int N" "of_int (- N) \<le> x / u"
    using xu unfolding abs_le_iff by simp_all
  have nN: "n \<le> N" unfolding n_def using xu2(1) by (rule round_even_le)
  have nN': "- N \<le> n" unfolding n_def using xu2(2) by (rule round_even_ge)
  have "\<bar>of_int n\<bar> \<le> (of_int N :: real)" using nN nN' by linarith
  then have "\<bar>of_int n\<bar> * u \<le> of_int N * u" using upos by (intro mult_right_mono) simp_all
  then have rb: "\<bar>r\<bar> \<le> 2 powr of_int k" using Nu upos by (simp add: r_def abs_mult)
  have "2 powr of_int k \<le> (2::real) powr 1023" using assms by (intro powr_mono) simp_all
  then have nov: "\<not> DBL_MAX < \<bar>r\<bar>" using rb DBL_MAX_ge by linarith
  have rd: "round_double x = Fin r"
    using False nov by (simp add: round_double_def Let_def r_def n_def u_def e_def)
  have "\<bar>of_int n - x / u\<bar> \<le> 1/2" unfolding n_def by (rule round_even_error)
  then have "\<bar>of_int n - x / u\<bar> * u \<le> 1/2 * u"
    using upos by (intro mult_right_mono) simp_all
  moreover have "\<bar>of_int n - x / u\<bar> * u = \<bar>r - x\<bar>"
  proof -
    have "r - x = (of_int n - x / u) * u" using upos by (simp add: r_def left_diff_distrib)
    then have "\<bar>r - x\<bar> = \<bar>of_int n - x / u\<bar> * \<bar>u\<bar>" by (simp only: abs_mult)
    then show ?thesis using upos by simp
  qed
  moreover have "1/2 * u = 2 powr of_int (e - 53)"
  proof -
    have "2 powr of_int (e - 53) = 2 powr (of_int (e - 52) + (- 1 :: real))" by simp
    also have "\<dots> = u * 2 powr (- 1)" unfolding powr_add u_def ..
    finally show ?thesis by (simp add: powr_minus)
  qed
  ultimately have err: "\<bar>r - x\<bar> \<le> 2 powr of_int (binade x - 53)" by (simp add: e_def)
  have s1: "0 \<le> x \<Longrightarrow> 0 \<le> r"
  proof -
    assume "0 \<le> x"
    then have "of_int 0 \<le> x / u" using upos by simp
    then have "0 \<le> n" unfolding n_def by (rule round_even_ge)
    then show ?thesis using upos by (simp add: r_def)
  qed
  have s2: "x \<le> 0 \<Longrightarrow> r \<le> 0"
  proof -
    assume "x \<le> 0"
    then have "x / u \<le> of_int 0" using upos by (simp add: field_simps)
    then have "n \<le> 0" unfolding n_def by (rule round_even_le)
    then show ?thesis using upos by (simp add: r_def mult_le_0_iff)
  qed
  show ?thesis using rd rb err s1 s2 by blast
qed

lemma round_double_exact:
  assumes x: "x = of_int m * 2 powr of_int j" and m: "\<bar>m\<bar> < 2 ^ 53"
    and j: "- 1074 \<le> j" "j \<le> 970"
  shows "round_double x = Fin x"
proof (cases "x = 0")
  case True
  then show ?thesis by (simp add: round_double_def)
next
  case False
  define e where "e = binade x"
  define u :: real where "u = 2 powr of_int (e - 52)"
  have upos: "0 < u" by (simp add: u_def)
  have "\<bar>of_int m :: real\<bar> < 2 ^ 53" using m by (metis of_int_abs of_int_less_numeral_power_cancel_iff)
  then have "\<bar>of_int m :: real\<bar> * 2 powr of_int j < 2 ^ 53 * 2 powr of_int j"
    by (intro mult_strict_right_mono) simp_all
  then have "\<bar>x\<bar> < 2 ^ 53 * 2 powr of_int j"
    unfolding x abs_mult by simp
  also have "(2::real) ^ 53 * 2 powr of_int j = 2 powr of_int (j + 52 + 1)"
    by (simp add: powr_add)
  finally have xlt: "\<bar>x\<bar> < 2 powr of_int (j + 52 + 1)" .
  have ej: "e \<le> j + 52" unfolding e_def using False xlt j by (intro binade_less) simp_all
  define d where "d = nat (j + 52 - e)"
  have "(2::real) powr of_int (j + 52 - e) = of_int (2 ^ nat (j + 52 - e))"
    using ej by (intro two_powr_int_ex) simp
  then have p: "(2::real) powr of_int (j + 52 - e) = of_int (2 ^ d)" by (simp only: d_def)
  have "x / u = of_int m * 2 powr (of_int j - of_int (e - 52))"
    by (simp add: x u_def powr_diff)
  moreover have "of_int j - of_int (e - 52) = (of_int (j + 52 - e) :: real)" by simp
  ultimately have "x / u = of_int m * 2 powr of_int (j + 52 - e)" by (simp only:)
  then have "x / u = of_int m * of_int (2 ^ d)" by (simp only: p)
  then have "x / u = of_int (m * 2 ^ d)" by (simp only: of_int_mult)
  then have "round_even (x / u) = m * 2 ^ d" by (simp only: round_even_of_int)
  then have r: "of_int (round_even (x / u)) * u = x"
    using \<open>x / u = of_int (m * 2 ^ d)\<close> upos by (simp add: field_simps)
  have "(2::real) powr of_int (j + 52 + 1) \<le> 2 powr 1023" using j by (intro powr_mono) simp_all
  then have "\<not> DBL_MAX < \<bar>x\<bar>" using xlt DBL_MAX_ge by linarith
  then show ?thesis
    using False r by (simp add: round_double_def Let_def u_def e_def)
qed

lemma round_double_of_int:
  assumes "\<bar>n\<bar> < 2 ^ 53"
  shows "round_double (of_int n) = Fin (of_int n)"
  using round_double_exact[of "of_int n" n 0] assms by simp

lemma int_to_double_exact: "\<bar>n\<bar> < 2 ^ 53 \<Longrightarrow> int_to_double n = Fin (of_int n)"
  by (simp add: int_to_double_def round_double_of_int)

lemma round_double_near:
  assumes "\<bar>x\<bar> \<le> 2 powr of_int k" and "- 1022 \<le> k" and "k \<le> 1023"
  obtains r where "round_double x = Fin r" and "\<bar>r\<bar> \<le> 2 powr of_int k"
    and "\<bar>r - x\<bar> \<le> 2 powr of_int (k - 53)" and "0 \<le> x \<Longrightarrow> 0 \<le> r" and "x \<le> 0 \<Longrightarrow> r \<le> 0"
proof -
  obtain r where r: "round_double x = Fin r" "\<bar>r\<bar> \<le> 2 powr of_int k"
    "\<bar>r - x\<bar> \<le> 2 powr of_int (binade x - 53)" "0 \<le> x \<longrightarrow> 0 \<le> r" "x \<le> 0 \<longrightarrow> r \<le> 0"
    using round_double_bounded[OF assms] by blast
  have "\<bar>r - x\<bar> \<le> 2 powr of_int (k - 53)"
  proof (cases "x = 0")
    case True
    then have "r = 0" using r(4,5) by simp
    then show ?thesis using True by simp
  next
    case False
    then have "binade x \<le> k" using assms by (intro binade_le) simp_all
    then have "(2::real) powr of_int (binade x - 53) \<le> 2 powr of_int (k - 53)"
      by (intro powr_mono) simp_all
    then show ?thesis using r(3) by linarith
  qed
  then show ?thesis using r that by blast
qed

lemma sint32_bounds: "- 2147483648 \<le> sint (x :: 32 word)" "sint (x :: 32 word) < 2147483648"
  using sint_ge[of x] sint_lt[of x] by simp_all

lemma sint64_bounds:
  "- 9223372036854775808 \<le> sint (x :: 64 word)" "sint (x :: 64 word) < 9223372036854775808"
  using sint_ge[of x] sint_lt[of x] by simp_all

text \<open>The day and month parts of an interval are computed without rounding.\<close>

lemma whole_part_exact:
  fixes d m :: "32 word"
  shows "dadd (dmul (int_to_double (sint d)) (Fin 86400)) (dmul (int_to_double (sint m)) (Fin 2592000))
    = Fin (of_int (sint d * 86400 + sint m * 2592000))"
proof -
  have d: "int_to_double (sint d) = Fin (of_int (sint d))"
    using sint32_bounds[of d] by (intro int_to_double_exact) simp
  have m: "int_to_double (sint m) = Fin (of_int (sint m))"
    using sint32_bounds[of m] by (intro int_to_double_exact) simp
  have d2: "round_double (of_int (sint d * 86400)) = Fin (of_int (sint d * 86400))"
    using sint32_bounds[of d] by (intro round_double_of_int) simp
  have m2: "round_double (of_int (sint m * 2592000)) = Fin (of_int (sint m * 2592000))"
    using sint32_bounds[of m] by (intro round_double_of_int) simp
  have s: "round_double (of_int (sint d * 86400 + sint m * 2592000))
      = Fin (of_int (sint d * 86400 + sint m * 2592000))"
    using sint32_bounds[of d] sint32_bounds[of m] by (intro round_double_of_int) simp
  have "dmul (int_to_double (sint d)) (Fin 86400) = Fin (of_int (sint d * 86400))"
    using d2 by (simp add: d)
  moreover have "dmul (int_to_double (sint m)) (Fin 2592000) = Fin (of_int (sint m * 2592000))"
    using m2 by (simp add: m)
  ultimately show ?thesis using s by simp
qed

text \<open>A 64-bit count of microseconds converts to a finite number of seconds.\<close>

lemma micros_to_seconds:
  fixes x :: "64 word"
  obtains q where "ddiv (int_to_double (sint x)) (Fin 1000000) = Fin q"
    and "\<bar>q\<bar> \<le> 2 ^ 44" and "\<bar>q - of_int (sint x) / 1000000\<bar> \<le> 3 / 1000"
    and "sint x \<le> 0 \<Longrightarrow> q \<le> 0"
proof -
  have "\<bar>sint x\<bar> \<le> 9223372036854775808" using sint64_bounds[of x] by linarith
  then have "\<bar>of_int (sint x) :: real\<bar> \<le> 9223372036854775808"
    by (metis of_int_abs of_int_le_numeral_iff)
  moreover have "(2::real) powr of_int 63 = 9223372036854775808" by simp
  ultimately have "\<bar>of_int (sint x) :: real\<bar> \<le> 2 powr of_int 63" by (simp only:)
  then obtain a where a: "round_double (of_int (sint x)) = Fin a" "\<bar>a\<bar> \<le> 2 powr of_int 63"
    "\<bar>a - of_int (sint x)\<bar> \<le> 2 powr of_int (63 - 53)" "of_int (sint x) \<le> (0::real) \<Longrightarrow> a \<le> 0"
    by (rule round_double_near) simp_all
  have a2: "\<bar>a\<bar> \<le> 9223372036854775808" "\<bar>a - of_int (sint x)\<bar> \<le> 1024" using a(2,3) by simp_all
  have "\<bar>a / 1000000\<bar> \<le> 2 powr of_int 44" using a2(1) by simp
  then obtain q where q: "round_double (a / 1000000) = Fin q" "\<bar>q\<bar> \<le> 2 powr of_int 44"
    "\<bar>q - a / 1000000\<bar> \<le> 2 powr of_int (44 - 53)" "a / 1000000 \<le> 0 \<Longrightarrow> q \<le> 0"
    by (rule round_double_near) simp_all
  have q3: "\<bar>q - a / 1000000\<bar> \<le> 1 / 512" using q(3) by (simp add: powr_minus)
  have "\<bar>a / 1000000 - of_int (sint x) / 1000000\<bar> \<le> 1024 / 1000000"
    using a2(2) by (simp flip: diff_divide_distrib)
  then have "\<bar>q - of_int (sint x) / 1000000\<bar> \<le> 3 / 1000" using q3 by linarith
  moreover have "ddiv (int_to_double (sint x)) (Fin 1000000) = Fin q"
    unfolding int_to_double_def a(1) using q(1) by simp
  moreover have "\<bar>q\<bar> \<le> 2 ^ 44" using q(2) by simp
  moreover have "sint x \<le> 0 \<Longrightarrow> q \<le> 0"
  proof -
    assume "sint x \<le> 0"
    then have "of_int (sint x) \<le> (0::real)" by (simp only: of_int_le_0_iff)
    then have "a \<le> 0" by (rule a(4))
    then show ?thesis using q(4) by simp
  qed
  ultimately show ?thesis using that by blast
qed

lemma total_seconds_finite:
  obtains q r where "ddiv (int_to_double (sint (micros iv))) (Fin 1000000) = Fin q"
    and "total_seconds iv = Fin r"
    and "round_double (of_int (sint (days iv) * 86400 + sint (months iv) * 2592000) + q) = Fin r"
    and "\<bar>r - (of_int (sint (days iv)) * 86400 + of_int (sint (months iv)) * 2592000
                + of_int (sint (micros iv)) / 1000000)\<bar> \<le> 1 + 3 / 1000"
proof -
  obtain q where q: "ddiv (int_to_double (sint (micros iv))) (Fin 1000000) = Fin q"
    "\<bar>q\<bar> \<le> 2 ^ 44" "\<bar>q - of_int (sint (micros iv)) / 1000000\<bar> \<le> 3 / 1000"
    by (rule micros_to_seconds)
  define D where "D = sint (days iv) * 86400 + sint (months iv) * 2592000"
  have Db: "\<bar>of_int D :: real\<bar> \<le> 5751820204800000"
  proof -
    have "\<bar>D\<bar> \<le> 5751820204800000"
      unfolding D_def using sint32_bounds[of "days iv"] sint32_bounds[of "months iv"] by simp
    then show ?thesis by (metis of_int_abs of_int_le_numeral_iff)
  qed
  have "\<bar>of_int D + q\<bar> \<le> 2 powr of_int 53" using Db q(2) by simp
  then obtain r where r: "round_double (of_int D + q) = Fin r"
    "\<bar>r - (of_int D + q)\<bar> \<le> 2 powr of_int (53 - 53)"
    by (rule round_double_near) simp_all
  have ts: "total_seconds iv = Fin r"
    unfolding total_seconds_def whole_part_exact q(1) using r(1) by (simp add: D_def)
  have "\<bar>r - (of_int D + q)\<bar> \<le> 1" using r(2) by simp
  then have "\<bar>r - (of_int D + of_int (sint (micros iv)) / 1000000)\<bar> \<le> 1 + 3 / 1000"
    using q(3) by linarith
  then have "\<bar>r - (of_int (sint (days iv)) * 86400 + of_int (sint (months iv)) * 2592000
                + of_int (sint (micros iv)) / 1000000)\<bar> \<le> 1 + 3 / 1000"
    by (simp add: D_def)
  then show ?thesis using q(1) ts r(1) that unfolding D_def by blast
qed

section \<open>The waiting loop, one iteration at a time\<close>

lemma tick_simps [simp]:
  "steady_clock (tick env w) = steady_clock w + int (elapse env (events w))"
  "events (tick env w) = Suc (events w)"
  "slept (tick env w) = slept w"
  by (simp_all add: tick_def)

lemma round_double_zero: "round_double 0 = Fin 0"
  by (simp add: round_double_def)

lemma round_double_numeral:
  "(numeral k :: int) < 2 ^ 53 \<Longrightarrow> round_double (numeral k) = Fin (numeral k)"
  using round_double_of_int[of "numeral k"] by simp

lemma int_to_double_numeral:
  "(numeral k :: int) < 2 ^ 53 \<Longrightarrow> int_to_double (numeral k) = Fin (numeral k)"
  using int_to_double_exact[of "numeral k"] by simp

lemma int_to_double_zero: "int_to_double 0 = Fin 0"
  using int_to_double_exact[of 0] by simp

lemma check_interval_value:
  "dmul (int_to_double CHECK_INTERVAL_MS) (Fin 1000000) = Fin 100000000"
  by (simp add: CHECK_INTERVAL_MS_def int_to_double_numeral round_double_numeral)

lemma sleep_duration_at_positive:
  assumes "dgt (sleep_duration_at end_time now2) (Fin 0)"
  obtains d where "sleep_duration_at end_time now2 = Fin d" and "0 < d" and "d \<le> 100000000"
proof -
  define rem where "rem = dsub end_time (int_to_double now2)"
  have sd: "sleep_duration_at end_time now2 = (if dlt rem (Fin 100000000) then rem else Fin 100000000)"
    by (simp add: sleep_duration_at_def Let_def check_interval_value rem_def)
  show ?thesis
  proof (cases "dlt rem (Fin 100000000)")
    case True
    then have "sleep_duration_at end_time now2 = rem" using sd by simp
    moreover obtain d where "rem = Fin d" "0 < d" "d \<le> 100000000"
      using True assms sd by (cases rem) auto
    ultimately show ?thesis using that by simp
  next
    case False
    then show ?thesis using sd that[of 100000000] by simp
  qed
qed

lemma WaitLoop_exit:
  assumes "\<not> dlt (int_to_double (steady_clock (tick env w))) end_time"
  shows "WaitLoop env end_time w = Some (Inr (), tick env w)"
  using assms by (subst WaitLoop.simps) (simp add: steady_clock_now_def)

lemma WaitLoop_cancel:
  assumes "dlt (int_to_double (steady_clock (tick env w))) end_time"
    and "interrupted env (steady_clock (tick env (tick env w)))"
  shows "WaitLoop env end_time w = Some (Inl InterruptException, tick env (tick env w))"
  using assms by (subst WaitLoop.simps) (simp add: steady_clock_now_def CheckInterruption_def)

lemma WaitLoop_step:
  assumes "dlt (int_to_double (steady_clock (tick env w))) end_time"
    and "\<not> interrupted env (steady_clock (tick env (tick env w)))"
  shows "WaitLoop env end_time w
    = WaitLoop env end_time (after_sleep env end_time (tick env (tick env (tick env w))))"
  using assms
  by (subst WaitLoop.simps)
    (simp add: steady_clock_now_def CheckInterruption_def after_sleep_def sleep_duration_at_def Let_def)

lemma after_sleep_clock:
  assumes "\<forall>n. oversleep env n \<le> L"
  shows "steady_clock w3 \<le> steady_clock (after_sleep env end_time w3)"
    and "steady_clock (after_sleep env end_time w3) \<le> steady_clock w3 + 100000000 + int L"
proof -
  show "steady_clock w3 \<le> steady_clock (after_sleep env end_time w3)"
  proof (cases "dgt (sleep_duration_at end_time (steady_clock w3)) (Fin 0)")
    case True
    then obtain d where d: "sleep_duration_at end_time (steady_clock w3) = Fin d" "0 < d"
      by (rule sleep_duration_at_positive)
    have "0 \<le> \<lfloor>d\<rfloor>" using d(2) by simp
    then show ?thesis using True d(1) by (simp add: after_sleep_def)
  next
    case False
    then show ?thesis by (simp add: after_sleep_def)
  qed
  show "steady_clock (after_sleep env end_time w3) \<le> steady_clock w3 + 100000000 + int L"
  proof (cases "dgt (sleep_duration_at end_time (steady_clock w3)) (Fin 0)")
    case True
    then obtain d where d: "sleep_duration_at end_time (steady_clock w3) = Fin d"
      "d \<le> 100000000"
      by (rule sleep_duration_at_positive)
    have "d \<le> of_int 100000000" using d(2) by simp
    then have f: "\<lfloor>d\<rfloor> \<le> 100000000" by (simp only: floor_le_iff)
    have l: "int (oversleep env (events w3)) \<le> int L" using assms by simp
    have "steady_clock (after_sleep env end_time w3)
        = steady_clock w3 + \<lfloor>d\<rfloor> + int (oversleep env (events w3))"
      using True d(1) by (simp add: after_sleep_def)
    then show ?thesis using f l by linarith
  next
    case False
    then show ?thesis by (simp add: after_sleep_def)
  qed
qed


text \<open>The loop throws no other exception than the interrupt.\<close>

lemma WaitLoop_exception:
  assumes "WaitLoop env end_time w = Some (Inl e, w')"
  shows "e = InterruptException"
proof -
  have "\<forall>e w'. y = (Inl e, w') \<longrightarrow> e = InterruptException"
    if "WaitLoop env end_time w = Some y" for y
  proof (rule WaitLoop.raw_induct[OF _ that,
        where P = "\<lambda>_ _ _ y. \<forall>e w'. y = (Inl e, w') \<longrightarrow> e = InterruptException"])
    fix f :: "env \<Rightarrow> double \<Rightarrow> world \<Rightarrow> ((exception + unit) \<times> world) option"
      and env end_time w y
    assume IH: "\<And>end_time w b y. f end_time w b = Some y \<Longrightarrow>
        \<forall>e w'. y = (Inl e, w') \<longrightarrow> e = InterruptException"
      and eq: "(case steady_clock_now env w of (now1, w1) \<Rightarrow>
        if dlt (int_to_double now1) end_time then
          (case CheckInterruption env w1 of
             (Inl e, w2) \<Rightarrow> Some (Inl e, w2)
           | (Inr _, w2) \<Rightarrow>
               (case steady_clock_now env w2 of (now2, w3) \<Rightarrow>
                  let remaining = dsub end_time (int_to_double now2);
                      check_interval = dmul (int_to_double CHECK_INTERVAL_MS) (Fin 1000000);
                      sleep_duration =
                        (if dlt remaining check_interval then remaining else check_interval)
                  in if dgt sleep_duration (Fin 0)
                     then f env end_time (sleep_for env sleep_duration w3)
                     else f env end_time w3))
        else Some (Inr (), w1)) = Some y"
    show "\<forall>e w'. y = (Inl e, w') \<longrightarrow> e = InterruptException"
      using eq IH
      by (auto simp: steady_clock_now_def CheckInterruption_def Let_def
          split: if_splits prod.splits sum.splits)
  qed
  then show ?thesis using assms by blast
qed

section \<open>PerformSleep\<close>

lemma PerformSleep_seconds_simps:
  "PerformSleep_seconds NaN = Inl InvalidInputException"
  "PerformSleep_seconds PInf = Inr (Some (Fin 3600))"
  "PerformSleep_seconds NInf = Inr (Some (Fin 3600))"
  "PerformSleep_seconds (Fin r) =
     (if r \<le> 0 then Inr None else if 3600 < r then Inr (Some (Fin 3600)) else Inr (Some (Fin r)))"
  by (simp_all add: PerformSleep_seconds_def MAX_SLEEP_SECONDS_def)


lemma PerformSleep_NaN: "PerformSleep env NaN w = Some (Inl InvalidInputException, w)"
  by (simp add: PerformSleep_def PerformSleep_seconds_simps)


lemma PerformSleep_Fin:
  "PerformSleep env (Fin r) w =
     (if r \<le> 0 then Some (Inr (), w)
      else WaitLoop env (deadline (Fin (min r 3600)) (steady_clock (tick env w))) (tick env w))"
  by (simp add: PerformSleep_def PerformSleep_seconds_simps steady_clock_now_def)

lemma PerformSleep_inf:
  "PerformSleep env PInf w = WaitLoop env (deadline (Fin 3600) (steady_clock (tick env w))) (tick env w)"
  "PerformSleep env NInf w = WaitLoop env (deadline (Fin 3600) (steady_clock (tick env w))) (tick env w)"
  by (simp_all add: PerformSleep_def PerformSleep_seconds_simps steady_clock_now_def)

lemma PerformSleep_invalid_only_NaN:
  assumes "PerformSleep env s w = Some (Inl InvalidInputException, w')"
  shows "s = NaN"
proof (rule ccontr)
  assume "s \<noteq> NaN"
  then have "PerformSleep env s w = Some (Inr (), w)
      \<or> (\<exists>e w0. PerformSleep env s w = WaitLoop env e w0)"
  proof (cases s)
    case (Fin r)
    then show ?thesis by (cases "r \<le> 0") (simp_all add: PerformSleep_Fin, blast)
  qed (auto simp: PerformSleep_inf)
  then show False
  proof
    assume "PerformSleep env s w = Some (Inr (), w)"
    then show ?thesis using assms by simp
  next
    assume "\<exists>e w0. PerformSleep env s w = WaitLoop env e w0"
    then obtain e w0 where "WaitLoop env e w0 = Some (Inl InvalidInputException, w')"
      using assms by auto
    then show ?thesis using WaitLoop_exception by blast
  qed
qed

section \<open>Runs on the example surroundings\<close>

lemmas run_simps = WaitLoop_step WaitLoop_exit WaitLoop_cancel after_sleep_def
  sleep_duration_at_def tick_def deadline_def PerformSleep_Fin PerformSleep_NaN
  check_interval_value int_to_double_numeral int_to_double_zero round_double_numeral
  round_double_zero quiet_env_def cancel_env_def ticking_env_def start_world_def

lemma quiet_quarter_second:
  "PerformSleep quiet_env (Fin (1 / 4)) start_world
     = Some (Inr (), \<lparr>steady_clock = 250000000, events = 14,
         slept = [100000000, 100000000, 50000000]\<rparr>)"
  by (simp add: run_simps)


lemma cancel_seen_at_check:
  "PerformSleep cancel_env (Fin (1 / 2)) start_world
     = Some (Inl InterruptException,
         \<lparr>steady_clock = 200000000, events = 11, slept = [100000000, 100000000]\<rparr>)"
  by (simp add: run_simps)

section \<open>The row loops\<close>

lemma SleepFunction_rows_append:
  "SleepFunction_rows env (xs @ ys) w =
     (case SleepFunction_rows env xs w of
        None \<Rightarrow> None
      | Some (Inl e, w') \<Rightarrow> Some (Inl e, w')
      | Some (Inr _, w') \<Rightarrow> SleepFunction_rows env ys w')"
proof (induction xs arbitrary: w)
  case Nil
  show ?case by simp
next
  case (Cons x xs)
  show ?case
  proof (cases x)
    case None
    then show ?thesis using Cons.IH by simp
  next
    case (Some s)
    then show ?thesis using Cons.IH by (simp split: option.splits prod.splits sum.splits)
  qed
qed

lemma SleepForFunction_rows_append:
  "SleepForFunction_rows env (xs @ ys) w =
     (case SleepForFunction_rows env xs w of
        None \<Rightarrow> None
      | Some (Inl e, w') \<Rightarrow> Some (Inl e, w')
      | Some (Inr _, w') \<Rightarrow> SleepForFunction_rows env ys w')"
proof (induction xs arbitrary: w)
  case Nil
  show ?case by simp
next
  case (Cons x xs)
  show ?case
  proof (cases x)
    case None
    then show ?thesis using Cons.IH by simp
  next
    case (Some s)
    then show ?thesis using Cons.IH by (simp split: option.splits prod.splits sum.splits)
  qed
qed

lemma SleepUntilFunction_rows_append:
  "SleepUntilFunction_rows env (xs @ ys) w =
     (case SleepUntilFunction_rows env xs w of
        None \<Rightarrow> None
      | Some (Inl e, w') \<Rightarrow> Some (Inl e, w')
      | Some (Inr _, w') \<Rightarrow> SleepUntilFunction_rows env ys w')"
proof (induction xs arbitrary: w)
  case Nil
  show ?case by simp
next
  case (Cons x xs)
  show ?case
  proof (cases x)
    case None
    then show ?thesis using Cons.IH by simp
  next
    case (Some s)
    then show ?thesis
      using Cons.IH by (simp add: Let_def split: option.splits prod.splits sum.splits)
  qed
qed

lemma total_seconds_not_NaN: "total_seconds iv \<noteq> NaN"
  using total_seconds_finite[of iv] by (metis double.distinct(5))

lemma timestamp_seconds_not_NaN: "timestamp_seconds t c \<noteq> NaN"
  using micros_to_seconds[of "t - c"] by (metis double.distinct(5) timestamp_seconds_def)

lemma SleepForFunction_rows_not_invalid:
  "SleepForFunction_rows env rows w \<noteq> Some (Inl InvalidInputException, w')"
proof (induction rows arbitrary: w)
  case Nil
  show ?case by simp
next
  case (Cons x rows)
  show ?case
  proof (cases x)
    case None
    then show ?thesis using Cons.IH by simp
  next
    case (Some iv)
    show ?thesis
      using Cons.IH PerformSleep_invalid_only_NaN[of env "total_seconds iv" w] total_seconds_not_NaN[of iv]
      by (auto simp: Some split: option.splits prod.splits sum.splits)
  qed
qed

lemma SleepUntilFunction_rows_not_invalid:
  "SleepUntilFunction_rows env rows w \<noteq> Some (Inl InvalidInputException, w')"
proof (induction rows arbitrary: w)
  case Nil
  show ?case by simp
next
  case (Cons x rows)
  show ?case
  proof (cases x)
    case None
    then show ?thesis using Cons.IH by simp
  next
    case (Some t)
    have m: "MAX_SLEEP_SECONDS \<noteq> NaN" by (simp add: MAX_SLEEP_SECONDS_def)
    show ?thesis
      using Cons.IH m timestamp_seconds_not_NaN[of t "GetCurrentTimestamp env (steady_clock w)"]
        PerformSleep_invalid_only_NaN[of env MAX_SLEEP_SECONDS w]
        PerformSleep_invalid_only_NaN[of env "timestamp_seconds t (GetCurrentTimestamp env (steady_clock w))" w]
      by (auto simp: Some Let_def split: option.splits prod.splits sum.splits)
  qed
qed

lemma SleepFunction_skip_null:
  "SleepFunction env (pre @ None # post) w = SleepFunction env (pre @ post) w"
  by (simp add: SleepFunction_def SleepFunction_rows_append split: option.splits prod.splits sum.splits)

lemma SleepForFunction_skip_null:
  "SleepForFunction env (pre @ None # post) w = SleepForFunction env (pre @ post) w"
  by (simp add: SleepForFunction_def SleepForFunction_rows_append split: option.splits prod.splits sum.splits)

lemma SleepUntilFunction_skip_null:
  "SleepUntilFunction env (pre @ None # post) w = SleepUntilFunction env (pre @ post) w"
  by (simp add: SleepUntilFunction_def SleepUntilFunction_rows_append split: option.splits prod.splits sum.splits)

lemma result_is_constant_null:
  "SleepFunction env rows w = Some (Inr v, w') \<Longrightarrow> v = ConstantVector True"
  "SleepForFunction env irows w = Some (Inr v, w') \<Longrightarrow> v = ConstantVector True"
  "SleepUntilFunction env trows w = Some (Inr v, w') \<Longrightarrow> v = ConstantVector True"
  by (auto simp: SleepFunction_def SleepForFunction_def SleepUntilFunction_def
      split: option.splits prod.splits sum.splits)




lemma sleep_until_sentinels:
  "SleepUntilFunction_rows env (Some INT64_MIN # rows) w = SleepUntilFunction_rows env rows w"
  "SleepUntilFunction_rows env (Some INT64_MAX # rows) w =
     (case PerformSleep env MAX_SLEEP_SECONDS w of
        None \<Rightarrow> None
      | Some (Inl e, w') \<Rightarrow> Some (Inl e, w')
      | Some (Inr _, w') \<Rightarrow> SleepUntilFunction_rows env rows w')"
  by (simp_all add: INT64_MIN_def INT64_MAX_def)

lemma sint_diff_in_range:
  fixes a b :: "64 word"
  assumes "- 9223372036854775808 \<le> sint a - sint b" and "sint a - sint b < 9223372036854775808"
  shows "sint (a - b) = sint a - sint b"
proof -
  have "sint (a - b) = signed_take_bit 63 (sint a - sint b)"
    by (simp add: sint_word_ariths)
  also have "\<dots> = sint a - sint b"
    using assms by (intro signed_take_bit_int_eq_self) simp_all
  finally show ?thesis .
qed

text \<open>
  Where the subtraction does not overflow, a target that is not in the future returns at
  once.
\<close>

lemma sleep_until_past_without_overflow:
  assumes "target \<noteq> INT64_MIN" and "target \<noteq> INT64_MAX"
    and "sint target \<le> sint (GetCurrentTimestamp env (steady_clock w))"
    and "- 9223372036854775808 \<le> sint target - sint (GetCurrentTimestamp env (steady_clock w))"
  shows "SleepUntilFunction_rows env (Some target # rows) w = SleepUntilFunction_rows env rows w"
proof -
  define current where "current = GetCurrentTimestamp env (steady_clock w)"
  have "sint (target - current) = sint target - sint current"
    using assms(3,4) unfolding current_def[symmetric] by (intro sint_diff_in_range) simp_all
  then have np: "sint (target - current) \<le> 0" using assms(3) by (simp add: current_def)
  obtain q where q: "ddiv (int_to_double (sint (target - current))) (Fin 1000000) = Fin q"
    "sint (target - current) \<le> 0 \<Longrightarrow> q \<le> 0"
    by (rule micros_to_seconds) blast
  have "timestamp_seconds target current = Fin q" by (simp add: timestamp_seconds_def q(1))
  moreover have "q \<le> 0" using q(2) np by simp
  ultimately have "PerformSleep env (timestamp_seconds target current) w = Some (Inr (), w)"
    by (simp add: PerformSleep_Fin)
  then show ?thesis using assms(1,2) by (simp add: current_def)
qed

section \<open>The deadline and the signal\<close>



section \<open>Every wait ends\<close>

text \<open>
  A real from 1 on rounds to positive infinity or to a finite double that is at least
  half of it.
\<close>

lemma round_double_large:
  assumes "1 \<le> x"
  shows "round_double x = PInf \<or> (\<exists>r. round_double x = Fin r \<and> x / 2 \<le> r \<and> r \<le> DBL_MAX)"
proof -
  define e where "e = binade x"
  define u :: real where "u = 2 powr of_int (e - 52)"
  define n where "n = round_even (x / u)"
  have upos: "0 < u" by (simp add: u_def)
  have l0: "0 \<le> log 2 x" using assms by simp
  then have "0 \<le> \<lfloor>log 2 x\<rfloor>" by simp
  moreover have "\<bar>x\<bar> = x" using assms by simp
  ultimately have e: "e = \<lfloor>log 2 x\<rfloor>" by (simp add: e_def binade_def max_def)
  have "of_int e \<le> log 2 x" by (simp add: e)
  then have "2 powr of_int e \<le> x" using assms by (simp add: powr_le_iff)
  moreover have "u \<le> 2 powr of_int e"
    unfolding u_def by (intro powr_mono) simp_all
  ultimately have ux: "u \<le> x" by linarith
  have "\<bar>of_int n - x / u\<bar> \<le> 1 / 2" unfolding n_def by (rule round_even_error)
  then have "x / u - 1 / 2 \<le> of_int n" by linarith
  then have "(x / u - 1 / 2) * u \<le> of_int n * u"
    using upos by (intro mult_right_mono) simp_all
  then have low: "x - u / 2 \<le> of_int n * u"
    using upos by (simp add: algebra_simps)
  have half: "x / 2 \<le> of_int n * u" using low ux by linarith
  have rd: "round_double x =
      (if DBL_MAX < \<bar>of_int n * u\<bar> then PInf else Fin (of_int n * u))"
    using assms by (simp add: round_double_def Let_def n_def u_def e_def)
  show ?thesis
  proof (cases "DBL_MAX < \<bar>of_int n * u\<bar>")
    case True
    then show ?thesis by (simp add: rd)
  next
    case False
    then have "of_int n * u \<le> DBL_MAX" by linarith
    then show ?thesis using False half by (simp add: rd)
  qed
qed

text \<open>Every deadline is reached by the readings of the clock from some time on.\<close>

lemma deadline_reached:
  "\<exists>N. \<forall>c\<ge>N. \<not> dlt (int_to_double c) end_time"
proof -
  have big: "round_double (of_int c) = PInf
      \<or> (\<exists>r. round_double (of_int c) = Fin r \<and> of_int c / 2 \<le> r \<and> r \<le> DBL_MAX)"
    if "1 \<le> c" for c
    using that by (intro round_double_large) simp
  show ?thesis
  proof (cases end_time)
    case NaN
    have "\<not> dlt d NaN" for d by (cases d) simp_all
    then show ?thesis using NaN by simp
  next
    case NInf
    have "\<not> dlt d NInf" for d by (cases d) simp_all
    then show ?thesis using NInf by simp
  next
    case PInf
    have "\<not> dlt (int_to_double c) PInf" if "2 * \<lceil>DBL_MAX\<rceil> + 2 \<le> c" for c
    proof -
      have d: "0 \<le> DBL_MAX" by (simp add: DBL_MAX_def)
      then have "0 \<le> \<lceil>DBL_MAX\<rceil>" by (simp add: le_ceiling_iff)
      then have c1: "1 \<le> c" using that by linarith
      have "DBL_MAX \<le> of_int \<lceil>DBL_MAX\<rceil>" by (rule le_of_int_ceiling)
      moreover have "(of_int (2 * \<lceil>DBL_MAX\<rceil> + 2) :: real) \<le> of_int c"
        using that by (simp only: of_int_le_iff)
      then have "2 * (of_int \<lceil>DBL_MAX\<rceil> :: real) + 2 \<le> of_int c" by simp
      ultimately have "DBL_MAX < of_int c / 2" by linarith
      then have "round_double (of_int c) = PInf" using big[OF c1] by fastforce
      then show ?thesis by (simp add: int_to_double_def)
    qed
    then show ?thesis using PInf by blast
  next
    case (Fin y)
    have "\<not> dlt (int_to_double c) (Fin y)" if "max 1 (2 * \<lceil>y\<rceil>) \<le> c" for c
    proof -
      have c1: "1 \<le> c" using that by simp
      have "y \<le> of_int \<lceil>y\<rceil>" by (rule le_of_int_ceiling)
      moreover have "2 * \<lceil>y\<rceil> \<le> c" using that by simp
      then have "(of_int (2 * \<lceil>y\<rceil>) :: real) \<le> of_int c"
        by (simp only: of_int_le_iff)
      then have "2 * (of_int \<lceil>y\<rceil> :: real) \<le> of_int c" by simp
      ultimately have "y \<le> of_int c / 2" by linarith
      then show ?thesis using big[OF c1] by (fastforce simp: int_to_double_def)
    qed
    then show ?thesis using Fin by blast
  qed
qed

text \<open>
  When time passes, at least a nanosecond in any three steps in a row, the loop ends,
  and so do \<open>PerformSleep\<close> and the three functions.
\<close>

lemma WaitLoop_returns:
  assumes progress: "\<forall>n. 0 < elapse env n + elapse env (Suc n) + elapse env (Suc (Suc n))"
  shows "\<exists>y. WaitLoop env end_time w = Some y"
proof -
  obtain N where N: "\<forall>c\<ge>N. \<not> dlt (int_to_double c) end_time"
    using deadline_reached by blast
  show ?thesis
  proof (induction "nat (N - steady_clock w)" arbitrary: w rule: less_induct)
    case less
    define w1 where "w1 = tick env w"
    define w2 where "w2 = tick env w1"
    define w3 where "w3 = tick env w2"
    define w4 where "w4 = after_sleep env end_time w3"
    have c1: "steady_clock w \<le> steady_clock w1" by (simp add: w1_def)
    have "0 < int (elapse env (events w) + elapse env (Suc (events w))
        + elapse env (Suc (Suc (events w))))"
      using progress by (simp only: of_nat_0_less_iff)
    then have moved: "steady_clock w < steady_clock w3"
      by (simp add: w3_def w2_def w1_def)
    have c4: "steady_clock w3 \<le> steady_clock w4"
      unfolding w4_def using after_sleep_clock[of env "oversleep env (events w3)"]
      by (cases "sleep_duration_at end_time (steady_clock w3)")
        (auto simp: after_sleep_def Let_def split: if_splits)
    show ?case
    proof (cases "dlt (int_to_double (steady_clock w1)) end_time")
      case False
      then have "WaitLoop env end_time w = Some (Inr (), w1)"
        unfolding w1_def by (rule WaitLoop_exit)
      then show ?thesis by simp
    next
      case running: True
      then have "steady_clock w1 < N" using N by (meson not_le_imp_less)
      then have before: "steady_clock w < N" using c1 by linarith
      show ?thesis
      proof (cases "interrupted env (steady_clock w2)")
        case True
        have "WaitLoop env end_time w = Some (Inl InterruptException, w2)"
          using running True unfolding w1_def w2_def by (rule WaitLoop_cancel)
        then show ?thesis by simp
      next
        case False
        have step: "WaitLoop env end_time w = WaitLoop env end_time w4"
          using running False unfolding w1_def w2_def w3_def w4_def by (rule WaitLoop_step)
        have "nat (N - steady_clock w4) < nat (N - steady_clock w)"
          using before moved c4 by linarith
        then show ?thesis using less step by simp
      qed
    qed
  qed
qed

lemma PerformSleep_returns:
  assumes "\<forall>n. 0 < elapse env n + elapse env (Suc n) + elapse env (Suc (Suc n))"
  shows "\<exists>y. PerformSleep env seconds w = Some y"
  using WaitLoop_returns[OF assms]
  by (simp add: PerformSleep_def steady_clock_now_def Let_def split: sum.splits option.splits)

lemma SleepFunction_returns:
  assumes progress: "\<forall>n. 0 < elapse env n + elapse env (Suc n) + elapse env (Suc (Suc n))"
  shows "\<exists>y. SleepFunction env args w = Some y"
proof -
  have "\<exists>y. SleepFunction_rows env args w = Some y"
  proof (induction args arbitrary: w)
    case Nil
    show ?case by simp
  next
    case (Cons row rows)
    show ?case
    proof (cases row)
      case None
      then show ?thesis using Cons by simp
    next
      case (Some seconds)
      obtain res w' where "PerformSleep env seconds w = Some (res, w')"
        using PerformSleep_returns[OF progress] by fastforce
      then show ?thesis using Some Cons[of w'] by (cases res) simp_all
    qed
  qed
  then show ?thesis by (auto simp: SleepFunction_def split: sum.splits)
qed

lemma SleepForFunction_returns:
  assumes progress: "\<forall>n. 0 < elapse env n + elapse env (Suc n) + elapse env (Suc (Suc n))"
  shows "\<exists>y. SleepForFunction env args w = Some y"
proof -
  have "\<exists>y. SleepForFunction_rows env args w = Some y"
  proof (induction args arbitrary: w)
    case Nil
    show ?case by simp
  next
    case (Cons row rows)
    show ?case
    proof (cases row)
      case None
      then show ?thesis using Cons by simp
    next
      case (Some interval)
      obtain res w' where "PerformSleep env (total_seconds interval) w = Some (res, w')"
        using PerformSleep_returns[OF progress] by fastforce
      then show ?thesis using Some Cons[of w'] by (cases res) simp_all
    qed
  qed
  then show ?thesis by (auto simp: SleepForFunction_def split: sum.splits)
qed

lemma SleepUntilFunction_returns:
  assumes progress: "\<forall>n. 0 < elapse env n + elapse env (Suc n) + elapse env (Suc (Suc n))"
  shows "\<exists>y. SleepUntilFunction env args w = Some y"
proof -
  have "\<exists>y. SleepUntilFunction_rows env args w = Some y"
  proof (induction args arbitrary: w)
    case Nil
    show ?case by simp
  next
    case (Cons row rows)
    show ?case
    proof (cases row)
      case None
      then show ?thesis using Cons by simp
    next
      case (Some target_timestamp)
      show ?thesis
      proof (cases "target_timestamp = INT64_MIN")
        case True
        then show ?thesis using Some Cons[of w] by simp
      next
        case low: False
        show ?thesis
        proof (cases "target_timestamp = INT64_MAX")
          case True
          obtain res w' where "PerformSleep env MAX_SLEEP_SECONDS w = Some (res, w')"
            using PerformSleep_returns[OF progress] by fastforce
          then show ?thesis using Some low True Cons[of w'] by (cases res) simp_all
        next
          case False
          obtain res w' where "PerformSleep env
              (timestamp_seconds target_timestamp (GetCurrentTimestamp env (steady_clock w))) w
              = Some (res, w')"
            using PerformSleep_returns[OF progress] by fastforce
          then show ?thesis using Some low False Cons[of w'] by (cases res) simp_all
        qed
      qed
    qed
  qed
  then show ?thesis by (auto simp: SleepUntilFunction_def split: sum.splits)
qed

section \<open>More runs and evaluations\<close>








lemma round_double_half: "round_double (1 / 2) = Fin (1 / 2)"
  using round_double_exact[of "1 / 2" 1 "- 1"] by (simp add: powr_minus)

lemma round_double_quarter: "round_double (1 / 4) = Fin (1 / 4)"
  using round_double_exact[of "1 / 4" 1 "- 2"] by (simp add: powr_minus)

lemma int_to_double_small:
  "int_to_double 0 = Fin 0" "int_to_double 250000 = Fin 250000" "int_to_double 500000 = Fin 500000"
  using int_to_double_exact[of 0] int_to_double_exact[of 250000] int_to_double_exact[of 500000]
  by simp_all

lemma total_seconds_quarter: "total_seconds quarter_second = Fin (1 / 4)"
  unfolding total_seconds_def whole_part_exact
  by (simp add: quarter_second_def int_to_double_small round_double_quarter)

lemma total_seconds_half: "total_seconds half_second = Fin (1 / 2)"
  unfolding total_seconds_def whole_part_exact
  by (simp add: half_second_def int_to_double_small round_double_half)

lemma total_seconds_month: "total_seconds one_month = Fin 2592000"
  unfolding total_seconds_def whole_part_exact
  using round_double_of_int[of 2592000]
  by (simp add: one_month_def int_to_double_small round_double_zero)

lemma timestamp_seconds_quarter:
  "timestamp_seconds 1700000000250000 (GetCurrentTimestamp quiet_env 0) = Fin (1 / 4)"
  by (simp add: timestamp_seconds_def quiet_env_def int_to_double_small round_double_quarter)

lemma timestamp_seconds_half:
  "timestamp_seconds 1700000000500000 (GetCurrentTimestamp cancel_env 0) = Fin (1 / 2)"
  by (simp add: timestamp_seconds_def cancel_env_def int_to_double_small round_double_half)


lemma quiet_rows:
  "SleepFunction_rows quiet_env [Some (Fin (1 / 4)), None] start_world
     = Some (Inr (), \<lparr>steady_clock = 250000000, events = 14,
         slept = [100000000, 100000000, 50000000]\<rparr>)"
  "SleepForFunction_rows quiet_env [None, Some quarter_second] start_world
     = Some (Inr (), \<lparr>steady_clock = 250000000, events = 14,
         slept = [100000000, 100000000, 50000000]\<rparr>)"
  "SleepUntilFunction_rows quiet_env [Some 1700000000250000, None, Some INT64_MIN] start_world
     = Some (Inr (), \<lparr>steady_clock = 250000000, events = 14,
         slept = [100000000, 100000000, 50000000]\<rparr>)"
proof -
  have n: "(1700000000250000 :: 64 word) \<noteq> INT64_MIN" "(1700000000250000 :: 64 word) \<noteq> INT64_MAX"
    by (simp_all add: INT64_MIN_def INT64_MAX_def)
  have g: "GetCurrentTimestamp quiet_env (steady_clock start_world) = GetCurrentTimestamp quiet_env 0"
    by (simp add: start_world_def)
  show "SleepFunction_rows quiet_env [Some (Fin (1 / 4)), None] start_world
     = Some (Inr (), \<lparr>steady_clock = 250000000, events = 14,
         slept = [100000000, 100000000, 50000000]\<rparr>)"
    by (simp add: quiet_quarter_second)
  show "SleepForFunction_rows quiet_env [None, Some quarter_second] start_world
     = Some (Inr (), \<lparr>steady_clock = 250000000, events = 14,
         slept = [100000000, 100000000, 50000000]\<rparr>)"
    by (simp add: total_seconds_quarter quiet_quarter_second)
  show "SleepUntilFunction_rows quiet_env [Some 1700000000250000, None, Some INT64_MIN] start_world
     = Some (Inr (), \<lparr>steady_clock = 250000000, events = 14,
         slept = [100000000, 100000000, 50000000]\<rparr>)"
    by (simp add: n g timestamp_seconds_quarter quiet_quarter_second)
qed

lemma far_past_difference:
  "sint (far_past - GetCurrentTimestamp quiet_env 0) = 9221672051309551616"
  by (simp add: far_past_def quiet_env_def)

lemma far_past_seconds:
  obtains r where "timestamp_seconds far_past (GetCurrentTimestamp quiet_env 0) = Fin r"
    and "3600 < r"
proof -
  have x: "int_to_double 9221672051309551616 = Fin 9221672051309551616"
    unfolding int_to_double_def
    using round_double_exact[of 9221672051309551616 9005539112606984 10] by simp
  have "\<bar>9221672051309551616 / 1000000 :: real\<bar> \<le> 2 powr of_int 44" by simp
  then obtain r where r: "round_double (9221672051309551616 / 1000000) = Fin r"
    "\<bar>r - 9221672051309551616 / 1000000\<bar> \<le> 2 powr of_int (44 - 53)"
    by (rule round_double_near) simp_all
  have "\<bar>r - 9221672051309551616 / 1000000\<bar> \<le> 1" using r(2) by (simp add: powr_minus)
  then have "3600 < r" by linarith
  moreover have "timestamp_seconds far_past (GetCurrentTimestamp quiet_env 0) = Fin r"
    unfolding timestamp_seconds_def Let_def far_past_difference x using r(1) by simp
  ultimately show ?thesis using that by blast
qed

section \<open>The claims\<close>

text \<open>
  C1. The claim is that \<open>sleep\<close> treats negative infinity like a large negative finite
  value: no wait, and no substitution of \<open>MAX_SLEEP_SECONDS\<close>. The code does otherwise:
  \<open>std::isinf\<close> holds for negative infinity too, so \<open>seconds\<close> becomes
  \<open>MAX_SLEEP_SECONDS\<close> before the test \<open>seconds <= 0\<close>, and the waiting loop is
  entered with 3600 seconds; a large negative finite value returns without waiting.
\<close>

theorem C1_negative_infinity_waits_maximum:
  "PerformSleep_seconds NInf = Inr (Some MAX_SLEEP_SECONDS)
   \<and> PerformSleep_seconds (Fin (- 1000000)) = Inr None"
  by (simp add: PerformSleep_seconds_simps MAX_SLEEP_SECONDS_def)



text \<open>
  C3. When a row of \<open>sleep\<close> holds NaN and the rows before it have completed their
  waits, leaving the world \<open>w1\<close>, the call fails with the invalid-input exception in
  the world \<open>w1\<close>: the NaN row has slept nothing, and no later row was started. In
  every case where the rows before it return, the call fails, either before the NaN row
  or at it, and the rows after it play no part.
\<close>

theorem C3_NaN_row_fails:
  "SleepFunction env (pre @ Some NaN # post) w =
     (case SleepFunction_rows env pre w of
        None \<Rightarrow> None
      | Some (Inl e, w1) \<Rightarrow> Some (Inl e, w1)
      | Some (Inr _, w1) \<Rightarrow> Some (Inl InvalidInputException, w1))
   \<and> (SleepFunction_rows env pre w = Some (Inr (), w1) \<longrightarrow>
        SleepFunction env (pre @ Some NaN # post) w = Some (Inl InvalidInputException, w1))"
  by (simp add: SleepFunction_def SleepFunction_rows_append PerformSleep_NaN
      split: option.splits prod.splits sum.splits)

theorem C3_NaN_row_fails_witness:
  "SleepFunction_rows quiet_env [Some (Fin (1 / 4)), None] start_world
     = Some (Inr (), \<lparr>steady_clock = 250000000, events = 14,
         slept = [100000000, 100000000, 50000000]\<rparr>)
   \<and> SleepFunction quiet_env ([Some (Fin (1 / 4)), None] @ Some NaN # [Some (Fin 1)]) start_world
     = Some (Inl InvalidInputException,
        \<lparr>steady_clock = 250000000, events = 14, slept = [100000000, 100000000, 50000000]\<rparr>)"
  using quiet_rows(1)
    C3_NaN_row_fails [of quiet_env "[Some (Fin (1 / 4)), None]" "[Some (Fin 1)]" start_world
      "\<lparr>steady_clock = 250000000, events = 14, slept = [100000000, 100000000, 50000000]\<rparr>"]
  by simp

text \<open>
  C4. The claim has three parts: the smallest \<open>int64_t\<close> as target returns at once,
  the largest waits for \<open>MAX_SLEEP_SECONDS\<close> without a subtraction (both hold, lemma
  \<open>sleep_until_sentinels\<close>), and for any other target the difference to the current
  timestamp goes through \<open>PerformSleep\<close>, so that a target in the past is a no-op.
  The last part holds where the subtraction does not overflow (lemma
  \<open>sleep_until_past_without_overflow\<close>) and fails where it does: for the target
  \<open>far_past\<close>, which is not one of the two values the code tests for, the 64-bit
  subtraction \<open>target - current\<close> wraps around, the difference of this target in the
  past comes out as 9221672051309551616 microseconds, and the call reads the clock and
  enters the waiting loop with the deadline of \<open>MAX_SLEEP_SECONDS\<close>, 3600000000000
  nanoseconds after the reading.
\<close>

theorem C4_past_target_waits_maximum:
  "sint far_past < sint (GetCurrentTimestamp quiet_env 0)
   \<and> far_past \<noteq> INT64_MIN \<and> far_past \<noteq> INT64_MAX
   \<and> sint (far_past - GetCurrentTimestamp quiet_env 0) = 9221672051309551616
   \<and> wait_duration (timestamp_seconds far_past (GetCurrentTimestamp quiet_env 0))
       = Inr MAX_SLEEP_SECONDS
   \<and> SleepUntilFunction_rows quiet_env [Some far_past] start_world
       = WaitLoop quiet_env (Fin 3600000000000) \<lparr>steady_clock = 0, events = 1, slept = []\<rparr>"
proof -
  obtain r where r: "timestamp_seconds far_past (GetCurrentTimestamp quiet_env 0) = Fin r"
    "3600 < r" by (rule far_past_seconds)
  have a: "sint far_past < sint (GetCurrentTimestamp quiet_env 0)"
    by (simp add: far_past_def quiet_env_def)
  have b: "far_past \<noteq> INT64_MIN \<and> far_past \<noteq> INT64_MAX"
    by (simp add: far_past_def INT64_MIN_def INT64_MAX_def)
  have c: "wait_duration (timestamp_seconds far_past (GetCurrentTimestamp quiet_env 0))
       = Inr MAX_SLEEP_SECONDS"
    using r by (simp add: wait_duration_def PerformSleep_seconds_simps MAX_SLEEP_SECONDS_def)
  have g: "GetCurrentTimestamp quiet_env (steady_clock start_world) = GetCurrentTimestamp quiet_env 0"
    by (simp add: start_world_def)
  have p: "PerformSleep quiet_env (Fin r) start_world
      = WaitLoop quiet_env (Fin 3600000000000) \<lparr>steady_clock = 0, events = 1, slept = []\<rparr>"
    using r(2)
    by (simp add: PerformSleep_Fin start_world_def quiet_env_def tick_def deadline_def
        int_to_double_zero round_double_numeral)
  have d: "SleepUntilFunction_rows quiet_env [Some far_past] start_world
       = WaitLoop quiet_env (Fin 3600000000000) \<lparr>steady_clock = 0, events = 1, slept = []\<rparr>"
    using b by (simp add: g r(1) p split: option.splits prod.splits sum.splits)
  show ?thesis using a b c d far_past_difference by simp
qed

text \<open>
  C5. The seconds of a \<open>sleep_for\<close> interval are
  \<open>days * 86400 + months * 2592000 + micros / 1000000\<close> in double arithmetic, a month
  counting as 30 days: the result \<open>r\<close> is always a finite double; the day and month
  part is computed exactly, so the only roundings are those of the microseconds quotient
  \<open>q\<close> and of the final sum, and \<open>r\<close> is within 1.003 of the exact value. The row
  is then handled by \<open>PerformSleep\<close> with \<open>r\<close>, which waits for
  \<open>min (max r 0) 3600\<close> seconds.
\<close>

theorem C5_interval_conversion:
  "\<exists>q r. ddiv (int_to_double (sint (micros iv))) (Fin 1000000) = Fin q
     \<and> total_seconds iv = Fin r
     \<and> round_double (of_int (sint (days iv) * 86400 + sint (months iv) * 2592000) + q) = Fin r
     \<and> \<bar>r - (of_int (sint (days iv)) * 86400 + of_int (sint (months iv)) * 2592000
              + of_int (sint (micros iv)) / 1000000)\<bar> \<le> 1 + 3 / 1000
     \<and> wait_duration (total_seconds iv) = Inr (Fin (min (max r 0) 3600))
     \<and> SleepForFunction_rows env (Some iv # rows) w =
          (case PerformSleep env (Fin r) w of
             None \<Rightarrow> None
           | Some (Inl e, w') \<Rightarrow> Some (Inl e, w')
           | Some (Inr _, w') \<Rightarrow> SleepForFunction_rows env rows w')"
proof -
  obtain q r where qr: "ddiv (int_to_double (sint (micros iv))) (Fin 1000000) = Fin q"
    "total_seconds iv = Fin r"
    "round_double (of_int (sint (days iv) * 86400 + sint (months iv) * 2592000) + q) = Fin r"
    "\<bar>r - (of_int (sint (days iv)) * 86400 + of_int (sint (months iv)) * 2592000
                + of_int (sint (micros iv)) / 1000000)\<bar> \<le> 1 + 3 / 1000"
    by (rule total_seconds_finite)
  have "wait_duration (Fin r) = Inr (Fin (min (max r 0) 3600))"
    by (simp add: wait_duration_def PerformSleep_seconds_simps)
  then show ?thesis using qr by (intro exI[of _ q] exI[of _ r]) simp
qed

theorem C5_interval_conversion_witness:
  "total_seconds one_month = Fin 2592000
   \<and> wait_duration (total_seconds one_month) = Inr (Fin 3600)
   \<and> total_seconds half_second = Fin (1 / 2)
   \<and> wait_duration (total_seconds half_second) = Inr (Fin (1 / 2))"
  using C5_interval_conversion [of one_month quiet_env "[]" start_world]
    C5_interval_conversion [of half_second quiet_env "[]" start_world]
  by (auto simp: total_seconds_month total_seconds_half)




text \<open>
  C7. In all three functions a NULL row is skipped: the call with the row gives the same
  result and the same world (clock, events and sleeps) as the call without it. Whenever
  a call returns, its result vector is the constant NULL vector: every row of it is NULL.
\<close>

theorem C7_null_rows_and_null_output:
  "SleepFunction env (pre @ None # post) w = SleepFunction env (pre @ post) w
   \<and> SleepForFunction env (ipre @ None # ipost) w = SleepForFunction env (ipre @ ipost) w
   \<and> SleepUntilFunction env (tpre @ None # tpost) w = SleepUntilFunction env (tpre @ tpost) w
   \<and> (SleepFunction env rows w = Some (Inr v, w') \<longrightarrow> (\<forall>i. RowIsNull v i))
   \<and> (SleepForFunction env irows w = Some (Inr v, w') \<longrightarrow> (\<forall>i. RowIsNull v i))
   \<and> (SleepUntilFunction env trows w = Some (Inr v, w') \<longrightarrow> (\<forall>i. RowIsNull v i))"
  by (auto simp: SleepFunction_skip_null SleepForFunction_skip_null SleepUntilFunction_skip_null
      dest: result_is_constant_null)

theorem C7_null_rows_and_null_output_witness:
  "SleepFunction quiet_env [Some (Fin (1 / 4)), None] start_world
     = Some (Inr (ConstantVector True),
        \<lparr>steady_clock = 250000000, events = 14, slept = [100000000, 100000000, 50000000]\<rparr>)
   \<and> SleepForFunction quiet_env [None, Some quarter_second] start_world
     = Some (Inr (ConstantVector True),
        \<lparr>steady_clock = 250000000, events = 14, slept = [100000000, 100000000, 50000000]\<rparr>)
   \<and> SleepUntilFunction quiet_env [Some 1700000000250000, None, Some INT64_MIN] start_world
     = Some (Inr (ConstantVector True),
        \<lparr>steady_clock = 250000000, events = 14, slept = [100000000, 100000000, 50000000]\<rparr>)
   \<and> RowIsNull (ConstantVector True) 0 \<and> RowIsNull (ConstantVector True) 1
   \<and> SleepFunction quiet_env [Some (Fin (1 / 4)), None] start_world
     = SleepFunction quiet_env [Some (Fin (1 / 4))] start_world"
proof -
  let ?W = "\<lparr>steady_clock = 250000000, events = 14, slept = [100000000, 100000000, 50000000]\<rparr>"
  have a: "SleepFunction quiet_env [Some (Fin (1 / 4)), None] start_world
      = Some (Inr (ConstantVector True), ?W)"
    by (simp only: SleepFunction_def quiet_rows) simp
  have b: "SleepForFunction quiet_env [None, Some quarter_second] start_world
      = Some (Inr (ConstantVector True), ?W)"
    by (simp only: SleepForFunction_def quiet_rows) simp
  have c: "SleepUntilFunction quiet_env [Some 1700000000250000, None, Some INT64_MIN] start_world
      = Some (Inr (ConstantVector True), ?W)"
    by (simp only: SleepUntilFunction_def quiet_rows) simp
  show ?thesis
    using a b c
      C7_null_rows_and_null_output [of quiet_env "[Some (Fin (1 / 4))]" "[]" start_world
        "[]" "[]" "[]" "[]" "[Some (Fin (1 / 4)), None]" "ConstantVector True" ?W
        "[None, Some quarter_second]" "[Some 1700000000250000, None, Some INT64_MIN]"]
    by simp
qed

text \<open>
  C8. Whatever value reaches \<open>PerformSleep\<close>, from any of the three functions, the
  seconds the waiting loop is entered with are finite, positive and at most
  \<open>MAX_SLEEP_SECONDS\<close>, and the deadline of the loop is that many seconds after the
  reading of the clock.
\<close>

theorem C8_canonical_duration_in_range:
  assumes "PerformSleep_seconds s = Inr (Some d)"
  shows "\<exists>r. d = Fin r \<and> 0 < r \<and> r \<le> 3600
     \<and> PerformSleep env s w =
         (case steady_clock_now env w of
            (now0, w0) \<Rightarrow> WaitLoop env (deadline (Fin r) now0) w0)"
  using assms
  by (cases s) (auto simp: PerformSleep_def PerformSleep_seconds_simps split: if_splits)

theorem C8_canonical_duration_in_range_witness:
  "PerformSleep_seconds (Fin 99999) = Inr (Some (Fin 3600))
   \<and> PerformSleep quiet_env (Fin 99999) start_world
       = (case steady_clock_now quiet_env start_world of
            (now0, w0) \<Rightarrow> WaitLoop quiet_env (deadline (Fin 3600) now0) w0)"
proof -
  have h: "PerformSleep_seconds (Fin 99999) = Inr (Some (Fin 3600))"
    by (simp add: PerformSleep_seconds_simps)
  show ?thesis
    using h C8_canonical_duration_in_range [OF h, of quiet_env start_world] by simp
qed

text \<open>
  C9. The seconds computed from an interval or from a pair of timestamps are never NaN,
  and neither \<open>sleep_for\<close> nor \<open>sleep_until\<close> ever fails with the invalid-input
  exception.
\<close>

theorem C9_no_invalid_argument:
  "total_seconds iv \<noteq> NaN
   \<and> timestamp_seconds target_timestamp current_timestamp \<noteq> NaN
   \<and> SleepForFunction env intervals w \<noteq> Some (Inl InvalidInputException, w')
   \<and> SleepUntilFunction env timestamps w \<noteq> Some (Inl InvalidInputException, w')"
proof -
  have "SleepForFunction env intervals w \<noteq> Some (Inl InvalidInputException, w')"
    using SleepForFunction_rows_not_invalid[of env intervals w w']
    by (auto simp: SleepForFunction_def split: option.splits prod.splits sum.splits)
  moreover have "SleepUntilFunction env timestamps w \<noteq> Some (Inl InvalidInputException, w')"
    using SleepUntilFunction_rows_not_invalid[of env timestamps w w']
    by (auto simp: SleepUntilFunction_def split: option.splits prod.splits sum.splits)
  ultimately show ?thesis
    using total_seconds_not_NaN timestamp_seconds_not_NaN by simp
qed

theorem C9_no_invalid_argument_witness:
  "SleepForFunction quiet_env [Some one_month, None] start_world
       \<noteq> Some (Inl InvalidInputException, start_world)
   \<and> SleepUntilFunction quiet_env [Some 1700000000250000] start_world
       \<noteq> Some (Inl InvalidInputException, start_world)"
  using C9_no_invalid_argument [of one_month 0 0 quiet_env "[Some one_month, None]" start_world
      start_world "[Some 1700000000250000]"]
  by simp

text \<open>
  C10. Clamping is idempotent: when a value \<open>s\<close> is accepted and waits for \<open>d\<close>,
  the value \<open>d\<close> is accepted and waits for \<open>d\<close>; and every finite value from 0 to
  \<open>MAX_SLEEP_SECONDS\<close> waits for itself.
\<close>

theorem C10_clamp_idempotent:
  "(wait_duration s = Inr d \<longrightarrow> wait_duration d = Inr d)
   \<and> (0 \<le> r \<and> r \<le> 3600 \<longrightarrow> wait_duration (Fin r) = Inr (Fin r))"
  by (cases s) (auto simp: wait_duration_def PerformSleep_seconds_simps split: if_splits)

theorem C10_clamp_idempotent_witness:
  "wait_duration (Fin 5000) = Inr (Fin 3600) \<and> wait_duration (Fin 3600) = Inr (Fin 3600)
   \<and> (0::real) \<le> 1800 \<and> (1800::real) \<le> 3600 \<and> wait_duration (Fin 1800) = Inr (Fin 1800)"
proof -
  have h: "wait_duration (Fin 5000) = Inr (Fin 3600)"
    by (simp add: wait_duration_def PerformSleep_seconds_simps)
  have g: "(0::real) \<le> 1800 \<and> (1800::real) \<le> 3600" by simp
  show ?thesis using h g C10_clamp_idempotent [of "Fin 5000" "Fin 3600" 1800] by simp
qed

end
